theory Spec2Isabelle
  imports Complex_Main
begin

section \<open>The PDF-to-image conversion routine of \<^verbatim>\<open>streamlit_app.py\<close>\<close>

text \<open>
  The development embeds \<^verbatim>\<open>convert_pdf_to_images\<close> (lines 50-131 of
  \<^verbatim>\<open>streamlit_app.py\<close>). The routine is orchestration code around the operating
  system, PyMuPDF (\<^verbatim>\<open>fitz\<close>) and Pillow (\<^verbatim>\<open>PIL.Image\<close>). None of these is part of
  the repository, so
  \<^item> the file system is an explicit store, a map from paths to nodes;
  \<^item> every call into PyMuPDF and Pillow is a field of an environment record, a
    function that returns either the exception it raises or its value;
  \<^item> the logger is the list of records the call emits;
  \<^item> every try/except/finally of the source is a case distinction on such results.
\<close>

subsection \<open>Data\<close>

type_synonym path = string
type_synonym bytes = string

datatype exn =
    FileNotFoundError
  | FileExistsError
  | IsADirectoryError
  | PermissionError
  | LibraryError string

text \<open>An in-memory Pillow image and a PyMuPDF pixmap: the attributes the routine reads.\<close>

record image =
  width :: int
  height :: int
  pixels :: bytes

record pixmap =
  pix_width :: int
  pix_height :: int
  samples :: bytes

datatype mode = RGB
datatype resample = NEAREST | BILINEAR | BICUBIC | LANCZOS

text \<open>
  \<^verbatim>\<open>fitz.Matrix(a, d)\<close> with two arguments is the scaling matrix with zoom factor
  \<^verbatim>\<open>a\<close> on the horizontal and \<^verbatim>\<open>d\<close> on the vertical axis. The source passes the Python
  float \<^verbatim>\<open>dpi/72\<close>; that float is a function (correct rounding) of the exact quotient,
  so the matrix carries the exact quotient and the rounding is part of the library
  function that receives it.
\<close>

datatype matrix = Matrix rat rat

text \<open>
  A file holds either raw bytes (the persisted upload) or the JPEG encoding of an image
  at a quality setting; \<open>Jpeg img q\<close> stands for the bytes \<^verbatim>\<open>image.save\<close> writes.
\<close>

datatype content = Raw bytes | Jpeg image int
datatype node = Dir | File content

type_synonym filesystem = "path \<rightharpoonup> node"

datatype level = DEBUG | INFO | ERROR

datatype message =
    PdfSaved path
  | OpenedPdf nat
  | ErrorOpening exn
  | Traceback exn
  | GeneratedPage nat
  | ErrorPage nat exn
  | ErrorConvert exn
  | ClosedOk
  | ErrorClosing exn

type_synonym log_record = "level \<times> message"

text \<open>
  The state of the document handle. \<open>CloseFailed\<close> is the state after a call of
  \<^verbatim>\<open>close()\<close> that raised: what the library has released by then is its own matter.
\<close>

datatype handle_state = NotOpened | Open | Closed | CloseFailed

text \<open>
  The collaborators. \<open>'d\<close> is the type of PyMuPDF documents, \<open>'p\<close> of its pages.
  \<open>refuses\<close> is the operating system refusing to create or write a path (permissions,
  a missing parent, a full disk). \<open>doc_truth\<close> is the truth value Python gives to a
  document object in \<^verbatim>\<open>if pdf_document:\<close>.
\<close>

record ('d, 'p) env =
  refuses :: "path \<Rightarrow> exn option"
  fitz_open :: "bytes \<Rightarrow> exn + 'd"
  page_count :: "'d \<Rightarrow> exn + nat"
  load_page :: "'d \<Rightarrow> nat \<Rightarrow> exn + 'p"
  get_pixmap :: "'p \<Rightarrow> matrix \<Rightarrow> exn + pixmap"
  doc_truth :: "'d \<Rightarrow> bool"
  doc_close :: "'d \<Rightarrow> exn option"
  frombytes :: "mode \<Rightarrow> int \<times> int \<Rightarrow> bytes \<Rightarrow> exn + image"
  thumbnail :: "image \<Rightarrow> int \<times> int \<Rightarrow> resample \<Rightarrow> exn + image"
  encode_error :: "image \<Rightarrow> int \<Rightarrow> exn option"

text \<open>The variables of one call: the store, the log, \<^verbatim>\<open>pdf_document\<close> and its handle.\<close>

record 'd state =
  files :: filesystem
  log :: "log_record list"
  pdf_document :: "'d option"
  handle :: handle_state

subsection \<open>Paths\<close>

text \<open>\<^verbatim>\<open>os.path.join(a, b)\<close> on POSIX.\<close>

definition path_join :: "path \<Rightarrow> path \<Rightarrow> path" where
  "path_join a b =
     (if b \<noteq> [] \<and> hd b = CHR ''/'' then b
      else if a = [] \<or> last a = CHR ''/'' then a @ b
      else a @ ''/'' @ b)"

definition digit :: "nat \<Rightarrow> char" where
  "digit n = ''0123456789'' ! n"

text \<open>\<^verbatim>\<open>str(n)\<close> for a non-negative integer: its decimal digits.\<close>

fun str_nat :: "nat \<Rightarrow> string" where
  "str_nat n = (if n < 10 then [digit n] else str_nat (n div 10) @ [digit (n mod 10)])"

declare str_nat.simps [simp del]

text \<open>Line 71 and line 107: the two kinds of path the routine writes.\<close>

definition pdf_path :: "path \<Rightarrow> path" where
  "pdf_path temp_folder = path_join temp_folder ''uploaded.pdf''"

definition image_path :: "path \<Rightarrow> nat \<Rightarrow> path" where
  "image_path temp_folder page_num =
     path_join temp_folder (''page_'' @ str_nat (page_num + 1) @ ''.jpg'')"

subsection \<open>Operating system calls\<close>

text \<open>
  \<^verbatim>\<open>os.makedirs(p, exist_ok=True)\<close>: an existing directory is accepted, an existing
  file is not, the empty path does not exist. The store is flat: the parents that
  \<^verbatim>\<open>makedirs\<close> creates on the way are not represented.
\<close>

definition makedirs :: "('d, 'p) env \<Rightarrow> filesystem \<Rightarrow> path \<Rightarrow> exn + filesystem" where
  "makedirs E fs p =
     (if p = [] then Inl FileNotFoundError
      else case fs p of
        Some Dir \<Rightarrow> Inr fs
      | Some (File c) \<Rightarrow> Inl FileExistsError
      | None \<Rightarrow> (case refuses E p of Some e \<Rightarrow> Inl e | None \<Rightarrow> Inr (fs(p \<mapsto> Dir))))"

text \<open>
  \<^verbatim>\<open>open(p, 'wb')\<close> followed by one write: the file is truncated and holds exactly the
  new content.
\<close>

definition write_file :: "('d, 'p) env \<Rightarrow> filesystem \<Rightarrow> path \<Rightarrow> content \<Rightarrow> exn + filesystem" where
  "write_file E fs p c =
     (case fs p of
        Some Dir \<Rightarrow> Inl IsADirectoryError
      | _ \<Rightarrow> (case refuses E p of Some e \<Rightarrow> Inl e | None \<Rightarrow> Inr (fs(p \<mapsto> File c))))"

text \<open>
  \<^verbatim>\<open>image.save(p, 'JPEG', optimize=True, quality=q)\<close>: the encoder may reject the image,
  and the write may fail; a failed save leaves the store as it was.
\<close>

definition save :: "('d, 'p) env \<Rightarrow> filesystem \<Rightarrow> image \<Rightarrow> path \<Rightarrow> int \<Rightarrow> exn + filesystem" where
  "save E fs img p q =
     (case encode_error E img q of
        Some e \<Rightarrow> Inl e
      | None \<Rightarrow> write_file E fs p (Jpeg img q))"

subsection \<open>The body of the page loop (lines 93-111)\<close>

text \<open>Line 97: the page is rendered with the same zoom \<^verbatim>\<open>dpi/72\<close> on both axes.\<close>

definition render :: "('d, 'p) env \<Rightarrow> 'p \<Rightarrow> int \<Rightarrow> exn + pixmap" where
  "render E page dpi = get_pixmap E page (Matrix (of_int dpi / 72) (of_int dpi / 72))"

text \<open>Lines 103-104: \<^verbatim>\<open>thumbnail\<close> is called only on an image that exceeds the bound.\<close>

definition resize :: "('d, 'p) env \<Rightarrow> image \<Rightarrow> int \<Rightarrow> exn + image" where
  "resize E img max_image_size =
     (if max (width img) (height img) > max_image_size
      then thumbnail E img (max_image_size, max_image_size) LANCZOS
      else Inr img)"

text \<open>Lines 94-100: the page, rendered and wrapped as a Pillow image.\<close>

definition rendered_image :: "('d, 'p) env \<Rightarrow> 'd \<Rightarrow> int \<Rightarrow> nat \<Rightarrow> exn + image" where
  "rendered_image E d dpi page_num =
     (case load_page E d page_num of
        Inl e \<Rightarrow> Inl e
      | Inr page \<Rightarrow>
          (case render E page dpi of
             Inl e \<Rightarrow> Inl e
           | Inr pix \<Rightarrow> frombytes E RGB (pix_width pix, pix_height pix) (samples pix)))"

text \<open>Lines 94-104: the image of a page as it is handed to \<^verbatim>\<open>save\<close>.\<close>

definition page_image :: "('d, 'p) env \<Rightarrow> 'd \<Rightarrow> int \<Rightarrow> int \<Rightarrow> nat \<Rightarrow> exn + image" where
  "page_image E d dpi max_image_size page_num =
     (case rendered_image E d dpi page_num of
        Inl e \<Rightarrow> Inl e
      | Inr img \<Rightarrow> resize E img max_image_size)"

text \<open>The try block of one iteration: the path appended and the store after the save.\<close>

definition process_page ::
  "('d, 'p) env \<Rightarrow> 'd \<Rightarrow> path \<Rightarrow> int \<Rightarrow> int \<Rightarrow> int \<Rightarrow> nat \<Rightarrow> filesystem \<Rightarrow> exn + (path \<times> filesystem)" where
  "process_page E d temp_folder dpi max_image_size quality page_num fs =
     (case page_image E d dpi max_image_size page_num of
        Inl e \<Rightarrow> Inl e
      | Inr img \<Rightarrow>
          (case save E fs img (image_path temp_folder page_num) quality of
             Inl e \<Rightarrow> Inl e
           | Inr fs' \<Rightarrow> Inr (image_path temp_folder page_num, fs')))"

text \<open>
  The loop of line 91 over the page numbers still to do. A page that raises is logged
  (lines 114-116) and the loop goes on.
\<close>

fun page_loop ::
  "('d, 'p) env \<Rightarrow> 'd \<Rightarrow> path \<Rightarrow> int \<Rightarrow> int \<Rightarrow> int \<Rightarrow> nat list \<Rightarrow> path list \<Rightarrow> 'd state
     \<Rightarrow> path list \<times> 'd state" where
  "page_loop E d temp_folder dpi max_image_size quality [] image_paths s = (image_paths, s)"
| "page_loop E d temp_folder dpi max_image_size quality (page_num # rest) image_paths s =
     (case process_page E d temp_folder dpi max_image_size quality page_num (files s) of
        Inr (p, fs') \<Rightarrow>
          page_loop E d temp_folder dpi max_image_size quality rest (image_paths @ [p])
            (s\<lparr>files := fs', log := log s @ [(DEBUG, GeneratedPage (page_num + 1))]\<rparr>)
      | Inl e \<Rightarrow>
          page_loop E d temp_folder dpi max_image_size quality rest image_paths
            (s\<lparr>log := log s @ [(ERROR, ErrorPage (page_num + 1) e), (ERROR, Traceback e)]\<rparr>))"

subsection \<open>The routine\<close>

text \<open>
  Lines 78-85: open the persisted file and read the page count. Both are in one try
  block; its handler logs and re-raises. \<^verbatim>\<open>pdf_document\<close> is assigned as soon as
  \<^verbatim>\<open>fitz.open\<close> returns.
\<close>

definition open_pdf :: "('d, 'p) env \<Rightarrow> path \<Rightarrow> 'd state \<Rightarrow> (exn + ('d \<times> nat)) \<times> 'd state" where
  "open_pdf E p s =
     (case (case files s p of Some (File (Raw b)) \<Rightarrow> fitz_open E b | _ \<Rightarrow> Inl FileNotFoundError) of
        Inl e \<Rightarrow> (Inl e, s\<lparr>log := log s @ [(ERROR, ErrorOpening e), (ERROR, Traceback e)]\<rparr>)
      | Inr d \<Rightarrow>
          (let s1 = s\<lparr>pdf_document := Some d, handle := Open\<rparr> in
           case page_count E d of
             Inl e \<Rightarrow> (Inl e, s1\<lparr>log := log s1 @ [(ERROR, ErrorOpening e), (ERROR, Traceback e)]\<rparr>)
           | Inr total_pages \<Rightarrow>
               (Inr (d, total_pages), s1\<lparr>log := log s1 @ [(INFO, OpenedPdf total_pages)]\<rparr>)))"

text \<open>Lines 66-118: the outer try block.\<close>

definition try_body ::
  "('d, 'p) env \<Rightarrow> bytes \<Rightarrow> path \<Rightarrow> int \<Rightarrow> int \<Rightarrow> int \<Rightarrow> 'd state
     \<Rightarrow> (exn + (path list \<times> nat)) \<times> 'd state" where
  "try_body E uploaded_file temp_folder dpi max_image_size quality s =
     (case makedirs E (files s) temp_folder of
        Inl e \<Rightarrow> (Inl e, s)
      | Inr fs1 \<Rightarrow>
          (case write_file E fs1 (pdf_path temp_folder) (Raw uploaded_file) of
             Inl e \<Rightarrow> (Inl e, s\<lparr>files := fs1\<rparr>)
           | Inr fs2 \<Rightarrow>
               (case open_pdf E (pdf_path temp_folder)
                       (s\<lparr>files := fs2, log := log s @ [(INFO, PdfSaved (pdf_path temp_folder))]\<rparr>) of
                  (Inl e, s3) \<Rightarrow> (Inl e, s3)
                | (Inr (d, total_pages), s3) \<Rightarrow>
                    (case page_loop E d temp_folder dpi max_image_size quality
                            [0..<total_pages] [] s3 of
                       (image_paths, s4) \<Rightarrow> (Inr (image_paths, total_pages), s4)))))"

text \<open>Lines 120-123: the outer handler logs and re-raises.\<close>

definition except_log :: "(exn + 'a) \<Rightarrow> 'd state \<Rightarrow> 'd state" where
  "except_log r s =
     (case r of
        Inl e \<Rightarrow> s\<lparr>log := log s @ [(ERROR, ErrorConvert e), (ERROR, Traceback e)]\<rparr>
      | Inr v \<Rightarrow> s)"

text \<open>
  Lines 124-131: the finally block. The guard is the truth value of the document
  object, not a comparison with \<^verbatim>\<open>None\<close>.
\<close>

definition finally_close :: "('d, 'p) env \<Rightarrow> 'd state \<Rightarrow> 'd state" where
  "finally_close E s =
     (case pdf_document s of
        None \<Rightarrow> s
      | Some d \<Rightarrow>
          (if doc_truth E d then
             (case doc_close E d of
                None \<Rightarrow> s\<lparr>handle := Closed, log := log s @ [(INFO, ClosedOk)]\<rparr>
              | Some e \<Rightarrow> s\<lparr>handle := CloseFailed, log := log s @ [(ERROR, ErrorClosing e)]\<rparr>)
           else s))"

definition initial :: "filesystem \<Rightarrow> 'd state" where
  "initial fs = \<lparr>files = fs, log = [], pdf_document = None, handle = NotOpened\<rparr>"

text \<open>
  \<^verbatim>\<open>convert_pdf_to_images(uploaded_file, temp_folder, logger, dpi, max_image_size, quality)\<close>
  run on the store \<open>fs\<close>: what it returns or raises, and the state it leaves.
\<close>

definition convert_pdf_to_images ::
  "('d, 'p) env \<Rightarrow> bytes \<Rightarrow> path \<Rightarrow> int \<Rightarrow> int \<Rightarrow> int \<Rightarrow> filesystem
     \<Rightarrow> (exn + (path list \<times> nat)) \<times> 'd state" where
  "convert_pdf_to_images E uploaded_file temp_folder dpi max_image_size quality fs =
     (case try_body E uploaded_file temp_folder dpi max_image_size quality (initial fs) of
        (r, s) \<Rightarrow> (r, finally_close E (except_log r s)))"

subsection \<open>Notions used to state the properties\<close>

text \<open>
  The outcome of lines 68-80 without the log: the store after the directory is made
  and the upload persisted, the document and its page count; or the exception that
  ends the call.
\<close>

definition opens ::
  "('d, 'p) env \<Rightarrow> bytes \<Rightarrow> path \<Rightarrow> filesystem \<Rightarrow> exn + (filesystem \<times> 'd \<times> nat)" where
  "opens E uploaded_file temp_folder fs =
     (case makedirs E fs temp_folder of
        Inl e \<Rightarrow> Inl e
      | Inr fs1 \<Rightarrow>
          (case write_file E fs1 (pdf_path temp_folder) (Raw uploaded_file) of
             Inl e \<Rightarrow> Inl e
           | Inr fs2 \<Rightarrow>
               (case fitz_open E uploaded_file of
                  Inl e \<Rightarrow> Inl e
                | Inr d \<Rightarrow>
                    (case page_count E d of
                       Inl e \<Rightarrow> Inl e
                     | Inr total_pages \<Rightarrow> Inr (fs2, d, total_pages)))))"

text \<open>The state in which the page loop starts.\<close>

definition opened_state :: "filesystem \<Rightarrow> path \<Rightarrow> 'd \<Rightarrow> nat \<Rightarrow> 'd state" where
  "opened_state fs2 temp_folder d total_pages =
     \<lparr>files = fs2,
      log = [(INFO, PdfSaved (pdf_path temp_folder)), (INFO, OpenedPdf total_pages)],
      pdf_document = Some d, handle = Open\<rparr>"

text \<open>Page \<open>k\<close> (counted from 0) yields an artifact when processed on the store \<open>fs\<close>.\<close>

definition page_succeeds ::
  "('d, 'p) env \<Rightarrow> 'd \<Rightarrow> path \<Rightarrow> int \<Rightarrow> int \<Rightarrow> int \<Rightarrow> filesystem \<Rightarrow> nat \<Rightarrow> bool" where
  "page_succeeds E d t dpi mx q fs k =
     (case process_page E d t dpi mx q k fs of Inl e \<Rightarrow> False | Inr x \<Rightarrow> True)"

text \<open>The log records of one iteration.\<close>

definition page_records ::
  "('d, 'p) env \<Rightarrow> 'd \<Rightarrow> path \<Rightarrow> int \<Rightarrow> int \<Rightarrow> int \<Rightarrow> filesystem \<Rightarrow> nat \<Rightarrow> log_record list" where
  "page_records E d t dpi mx q fs k =
     (case process_page E d t dpi mx q k fs of
        Inl e \<Rightarrow> [(ERROR, ErrorPage (k + 1) e), (ERROR, Traceback e)]
      | Inr x \<Rightarrow> [(DEBUG, GeneratedPage (k + 1))])"

text \<open>Two stores have their directories at the same paths.\<close>

definition same_dirs :: "filesystem \<Rightarrow> filesystem \<Rightarrow> bool" where
  "same_dirs f g = (\<forall>p. (f p = Some Dir) = (g p = Some Dir))"

text \<open>What \<open>path_join\<close> puts in front of a relative name.\<close>

definition join_prefix :: "path \<Rightarrow> path" where
  "join_prefix a = (if a = [] \<or> last a = CHR ''/'' then a else a @ ''/'')"

subsection \<open>What is assumed of \<^verbatim>\<open>Image.thumbnail\<close>\<close>

text \<open>
  \<^verbatim>\<open>thumbnail\<close> is Pillow's code. Its documented behaviour on a square box of side
  \<open>b\<close> that the image exceeds: the result's larger side is \<open>b\<close>, and the aspect ratio
  is kept up to the rounding of the smaller side to a whole pixel.
\<close>

definition aspect_kept :: "image \<Rightarrow> image \<Rightarrow> bool" where
  "aspect_kept a b =
     (\<bar>width b * height a - height b * width a\<bar> \<le> max (width a) (height a))"

definition thumbnail_contract :: "('d, 'p) env \<Rightarrow> bool" where
  "thumbnail_contract E =
     (\<forall>img b r img'.
        b < max (width img) (height img) \<longrightarrow> thumbnail E img (b, b) r = Inr img' \<longrightarrow>
        max (width img') (height img') = b \<and> aspect_kept img img')"

subsection \<open>A small instance of the collaborators\<close>

text \<open>
  Used to run the routine on concrete inputs. A document is the list of its pages, a
  page is its size in points or \<open>None\<close> when it cannot be loaded. The bytes
  \<^verbatim>\<open>%PDF-3\<close> open as a document of three pages whose second page is corrupt,
  \<^verbatim>\<open>%PDF-0\<close> as a document without pages, anything else does not open. A document
  is truthy when its length is not zero, as PyMuPDF's \<^verbatim>\<open>Document\<close> is, which defines
  \<^verbatim>\<open>__len__\<close> (the page count) and no \<^verbatim>\<open>__bool__\<close>.
\<close>

definition demo_doc :: "(int \<times> int) option list" where
  "demo_doc = [Some (612, 792), None, Some (792, 612)]"

definition demo_env :: "((int \<times> int) option list, int \<times> int) env" where
  "demo_env =
     \<lparr>refuses = (\<lambda>p. None),
      fitz_open = (\<lambda>b.
        if b = ''%PDF-3'' then Inr demo_doc
        else if b = ''%PDF-0'' then Inr []
        else Inl (LibraryError ''cannot open'')),
      page_count = (\<lambda>d. Inr (length d)),
      load_page = (\<lambda>d k.
        if k < length d
        then (case d ! k of Some page \<Rightarrow> Inr page | None \<Rightarrow> Inl (LibraryError ''bad page''))
        else Inl (LibraryError ''page not in document'')),
      get_pixmap = (\<lambda>(w, h) m. case m of Matrix a b \<Rightarrow>
        Inr \<lparr>pix_width = \<lfloor>of_int w * a\<rfloor>, pix_height = \<lfloor>of_int h * b\<rfloor>, samples = []\<rparr>),
      doc_truth = (\<lambda>d. length d \<noteq> 0),
      doc_close = (\<lambda>d. None),
      frombytes = (\<lambda>m (w, h) b. Inr \<lparr>width = w, height = h, pixels = b\<rparr>),
      thumbnail = (\<lambda>img (x, y) r.
        if x \<le> 0 \<or> y \<le> 0 \<or> width img \<le> 0 \<or> height img \<le> 0
        then Inl (LibraryError ''bad size'')
        else if y * width img \<le> x * height img
        then Inr (img\<lparr>width := max 1 (y * width img div height img), height := y\<rparr>)
        else Inr (img\<lparr>width := x, height := max 1 (x * height img div width img)\<rparr>)),
      encode_error = (\<lambda>img q. None)\<rparr>"

definition demo_store :: "bytes \<Rightarrow> filesystem" where
  "demo_store b = [''/tmp/out'' \<mapsto> Dir, ''/tmp/out/uploaded.pdf'' \<mapsto> File (Raw b)]"


section \<open>Basic facts\<close>

subsection \<open>The store\<close>

lemma same_dirs_refl: "same_dirs f f"
  by (simp add: same_dirs_def)

lemma write_file_Inr:
  "write_file E fs p c = Inr fs' \<longleftrightarrow> fs p \<noteq> Some Dir \<and> refuses E p = None \<and> fs' = fs(p \<mapsto> File c)"
  by (auto simp: write_file_def split: option.splits node.splits)

lemma write_file_Inl:
  "write_file E fs p c = Inl e \<longleftrightarrow>
     (fs p = Some Dir \<and> e = IsADirectoryError) \<or> (fs p \<noteq> Some Dir \<and> refuses E p = Some e)"
  by (auto simp: write_file_def split: option.splits node.splits)

lemma same_dirsD: "same_dirs f g \<Longrightarrow> (f p = Some Dir) = (g p = Some Dir)"
  by (simp add: same_dirs_def)

lemma write_file_same_dirs:
  "same_dirs f g \<Longrightarrow> write_file E f p c = Inl e \<Longrightarrow> write_file E g p c = Inl e"
  by (simp add: write_file_Inl same_dirsD [of f g])

lemma process_page_Inr:
  "process_page E d t dpi mx q k fs = Inr (p, fs') \<longleftrightarrow>
     p = image_path t k \<and> fs p \<noteq> Some Dir \<and> refuses E p = None \<and>
     (\<exists>img. page_image E d dpi mx k = Inr img \<and> encode_error E img q = None \<and>
            fs' = fs(p \<mapsto> File (Jpeg img q)))"
  by (auto simp: process_page_def save_def write_file_Inr write_file_Inl
           split: sum.splits option.splits)

lemma process_page_Inl_same_dirs:
  "same_dirs f g \<Longrightarrow> process_page E d t dpi mx q k f = Inl e \<Longrightarrow>
     process_page E d t dpi mx q k g = Inl e"
  by (auto simp: process_page_def save_def split: sum.splits option.splits
           dest: write_file_same_dirs)

lemma process_page_Inr_same_dirs:
  "same_dirs f g \<Longrightarrow> process_page E d t dpi mx q k f = Inr (p, f') \<Longrightarrow>
     \<exists>c. f' = f(p \<mapsto> File c) \<and> process_page E d t dpi mx q k g = Inr (p, g(p \<mapsto> File c))"
  unfolding process_page_Inr by (auto simp: same_dirs_def)

lemma same_dirs_sym: "same_dirs f g \<Longrightarrow> same_dirs g f"
  by (simp add: same_dirs_def)

lemma same_dirs_upd: "same_dirs f g \<Longrightarrow> same_dirs (f(p \<mapsto> File c)) (g(p \<mapsto> File c'))"
  by (simp add: same_dirs_def)

lemma same_dirs_upd_left: "f p \<noteq> Some Dir \<Longrightarrow> same_dirs (f(p \<mapsto> File c)) f"
  by (auto simp add: same_dirs_def)

subsection \<open>Paths are distinct\<close>

lemma path_join_relative:
  "b = [] \<or> hd b \<noteq> CHR ''/'' \<Longrightarrow> path_join a b = join_prefix a @ b"
  by (auto simp: path_join_def join_prefix_def)

lemma pdf_path_eq: "pdf_path t = join_prefix t @ ''uploaded.pdf''"
  by (simp add: pdf_path_def path_join_relative)

lemma image_path_eq: "image_path t k = join_prefix t @ ''page_'' @ str_nat (k + 1) @ ''.jpg''"
  by (simp add: image_path_def path_join_relative)

lemma str_nat_nonempty: "str_nat n \<noteq> []"
  by (subst str_nat.simps) simp

lemma digit_inj: "a < 10 \<Longrightarrow> b < 10 \<Longrightarrow> digit a = digit b \<Longrightarrow> a = b"
  by (simp add: digit_def nth_eq_iff_index_eq)

lemma str_nat_small: "n < 10 \<Longrightarrow> str_nat n = [digit n]"
  by (subst str_nat.simps) simp

lemma str_nat_large: "\<not> n < 10 \<Longrightarrow> str_nat n = str_nat (n div 10) @ [digit (n mod 10)]"
  by (subst str_nat.simps) simp

lemma str_nat_inj: "str_nat n = str_nat m \<Longrightarrow> n = m"
proof (induction n arbitrary: m rule: str_nat.induct)
  case (1 n)
  show ?case
  proof (cases "n < 10")
    case n_small: True
    show ?thesis
    proof (cases "m < 10")
      case True
      with n_small "1.prems" show ?thesis
        by (simp add: str_nat_small digit_inj)
    next
      case False
      with n_small "1.prems" str_nat_nonempty [of "m div 10"] show ?thesis
        by (auto simp: str_nat_small str_nat_large [of m])
    qed
  next
    case n_large: False
    show ?thesis
    proof (cases "m < 10")
      case True
      with n_large "1.prems" str_nat_nonempty [of "n div 10"] show ?thesis
        by (auto simp: str_nat_small str_nat_large [of n])
    next
      case False
      with n_large "1.prems"
      have eq: "str_nat (n div 10) = str_nat (m div 10)" "digit (n mod 10) = digit (m mod 10)"
        by (simp_all add: str_nat_large [of n] str_nat_large [of m])
      from eq(1) n_large have "n div 10 = m div 10"
        by (rule "1.IH" [rotated])
      moreover from eq(2) have "n mod 10 = m mod 10"
        by (simp add: digit_inj)
      ultimately show ?thesis
        by (metis div_mult_mod_eq)
    qed
  qed
qed

lemma image_path_inj: "image_path t j = image_path t k \<Longrightarrow> j = k"
  by (auto simp: image_path_eq dest: str_nat_inj)

lemma image_path_neq_pdf_path: "image_path t k \<noteq> pdf_path t"
  by (simp add: image_path_eq pdf_path_eq)

lemma pdf_path_neq_folder: "pdf_path t \<noteq> t"
proof
  assume "pdf_path t = t"
  then have "length (pdf_path t) = length t" by simp
  then show False
    by (simp add: pdf_path_eq join_prefix_def split: if_splits)
qed


subsection \<open>The page loop\<close>

lemma page_succeeds_same_dirs:
  assumes "same_dirs f g"
  shows "page_succeeds E d t dpi mx q f k = page_succeeds E d t dpi mx q g k"
proof (cases "process_page E d t dpi mx q k f")
  case (Inl e)
  with assms have "process_page E d t dpi mx q k g = Inl e"
    by (rule process_page_Inl_same_dirs)
  with Inl show ?thesis by (simp add: page_succeeds_def)
next
  case (Inr x)
  obtain p f' where "x = (p, f')" by (cases x)
  with Inr have "process_page E d t dpi mx q k f = Inr (p, f')"
    by simp
  from process_page_Inr_same_dirs [OF assms this]
  obtain c where "process_page E d t dpi mx q k g = Inr (p, g(p \<mapsto> File c))"
    by auto
  with Inr show ?thesis by (simp add: page_succeeds_def)
qed

lemma page_records_same_dirs:
  assumes "same_dirs f g"
  shows "page_records E d t dpi mx q f k = page_records E d t dpi mx q g k"
proof (cases "process_page E d t dpi mx q k f")
  case (Inl e)
  with assms have "process_page E d t dpi mx q k g = Inl e"
    by (rule process_page_Inl_same_dirs)
  with Inl show ?thesis by (simp add: page_records_def)
next
  case (Inr x)
  obtain p f' where "x = (p, f')" by (cases x)
  with Inr have "process_page E d t dpi mx q k f = Inr (p, f')"
    by simp
  from process_page_Inr_same_dirs [OF assms this]
  obtain c where "process_page E d t dpi mx q k g = Inr (p, g(p \<mapsto> File c))"
    by auto
  with Inr show ?thesis by (simp add: page_records_def)
qed

lemma process_page_keeps_dirs:
  "process_page E d t dpi mx q k f = Inr (p, f') \<Longrightarrow> same_dirs f' f"
  by (auto simp: process_page_Inr same_dirs_upd_left)

lemma page_loop_paths:
  "fst (page_loop E d t dpi mx q ks acc s) =
     acc @ map (image_path t) (filter (page_succeeds E d t dpi mx q (files s)) ks)"
proof (induction ks arbitrary: acc s)
  case Nil
  show ?case by simp
next
  case (Cons k ks)
  show ?case
  proof (cases "process_page E d t dpi mx q k (files s)")
    case (Inl e)
    then show ?thesis
      by (simp add: Cons.IH page_succeeds_def)
  next
    case (Inr x)
    obtain p f' where x: "x = (p, f')" by (cases x)
    from Inr x have p: "p = image_path t k" and dirs: "same_dirs f' (files s)"
      by (simp_all add: process_page_Inr process_page_keeps_dirs)
    from Inr x show ?thesis
      by (simp add: Cons.IH page_succeeds_def p page_succeeds_same_dirs [OF dirs, unfolded page_succeeds_def])
  qed
qed

lemma page_loop_log:
  "log (snd (page_loop E d t dpi mx q ks acc s)) =
     log s @ concat (map (page_records E d t dpi mx q (files s)) ks)"
proof (induction ks arbitrary: acc s)
  case Nil
  show ?case by simp
next
  case (Cons k ks)
  show ?case
  proof (cases "process_page E d t dpi mx q k (files s)")
    case (Inl e)
    then show ?thesis
      by (simp add: Cons.IH page_records_def)
  next
    case (Inr x)
    obtain p f' where x: "x = (p, f')" by (cases x)
    from Inr x have dirs: "same_dirs f' (files s)"
      by (simp add: process_page_keeps_dirs)
    from Inr x show ?thesis
      by (simp add: Cons.IH page_records_def page_records_same_dirs [OF dirs, unfolded page_records_def])
  qed
qed

lemma page_loop_handle:
  "handle (snd (page_loop E d t dpi mx q ks acc s)) = handle s \<and>
   pdf_document (snd (page_loop E d t dpi mx q ks acc s)) = pdf_document s"
  by (induction ks arbitrary: acc s) (auto split: sum.splits)

lemma page_loop_same_dirs:
  "same_dirs (files (snd (page_loop E d t dpi mx q ks acc s))) (files s)"
proof (induction ks arbitrary: acc s)
  case Nil
  show ?case by (simp add: same_dirs_refl)
next
  case (Cons k ks)
  show ?case
  proof (cases "process_page E d t dpi mx q k (files s)")
    case (Inl e)
    with Cons.IH [of acc "s\<lparr>log := log s @ [(ERROR, ErrorPage (k + 1) e), (ERROR, Traceback e)]\<rparr>"]
    show ?thesis by simp
  next
    case (Inr x)
    obtain p f' where x: "x = (p, f')" by (cases x)
    from Inr x have dirs: "same_dirs f' (files s)"
      by (simp add: process_page_keeps_dirs)
    from Cons.IH [of "acc @ [p]" "s\<lparr>files := f', log := log s @ [(DEBUG, GeneratedPage (k + 1))]\<rparr>"]
      dirs Inr x
    show ?thesis by (auto simp: same_dirs_def)
  qed
qed

lemma page_loop_files_other:
  "p \<notin> image_path t ` set ks \<Longrightarrow>
     files (snd (page_loop E d t dpi mx q ks acc s)) p = files s p"
proof (induction ks arbitrary: acc s)
  case Nil
  show ?case by simp
next
  case (Cons k ks)
  show ?case
  proof (cases "process_page E d t dpi mx q k (files s)")
    case (Inl e)
    with Cons show ?thesis by simp
  next
    case (Inr x)
    obtain p' f' where x: "x = (p', f')" by (cases x)
    from Inr x obtain c where "f' = (files s)(image_path t k \<mapsto> c)" "p' = image_path t k"
      by (auto simp: process_page_Inr)
    with Inr x Cons show ?thesis by simp
  qed
qed

lemma page_loop_files_page:
  "distinct ks \<Longrightarrow> k \<in> set ks \<Longrightarrow>
     files (snd (page_loop E d t dpi mx q ks acc s)) (image_path t k) =
       (case process_page E d t dpi mx q k (files s) of
          Inl e \<Rightarrow> files s (image_path t k)
        | Inr (p, f') \<Rightarrow> f' (image_path t k))"
proof (induction ks arbitrary: acc s)
  case Nil
  then show ?case by simp
next
  case (Cons j ks)
  show ?case
  proof (cases "k = j")
    case True
    with Cons.prems have "image_path t k \<notin> image_path t ` set ks"
      by (auto dest: image_path_inj)
    with True show ?thesis
      by (auto simp: page_loop_files_other split: sum.splits)
  next
    case False
    with Cons.prems have k: "k \<in> set ks" "distinct ks" by auto
    show ?thesis
    proof (cases "process_page E d t dpi mx q j (files s)")
      case (Inl e)
      with Cons.IH [OF k(2) k(1)] show ?thesis by (simp split: sum.splits)
    next
      case (Inr x)
      obtain p f' where x: "x = (p, f')" by (cases x)
      define s' where "s' = s\<lparr>files := f', log := log s @ [(DEBUG, GeneratedPage (j + 1))]\<rparr>"
      from Inr x have dirs: "same_dirs f' (files s)"
        by (simp add: process_page_keeps_dirs)
      from Inr x obtain c where f': "f' = (files s)(image_path t j \<mapsto> c)"
        by (auto simp: process_page_Inr)
      have neq: "image_path t k \<noteq> image_path t j"
        using False by (auto dest: image_path_inj)
      have same: "f' (image_path t k) = files s (image_path t k)"
        using neq by (simp add: f')
      have fs': "files s' = f'"
        by (simp add: s'_def)
      have step: "page_loop E d t dpi mx q (j # ks) acc s =
                  page_loop E d t dpi mx q ks (acc @ [p]) s'"
        using Inr x by (simp add: s'_def)
      have IH: "files (snd (page_loop E d t dpi mx q ks (acc @ [p]) s')) (image_path t k) =
                  (case process_page E d t dpi mx q k f' of
                     Inl e \<Rightarrow> f' (image_path t k)
                   | Inr (p, g) \<Rightarrow> g (image_path t k))"
        using Cons.IH [OF k(2) k(1), of "acc @ [p]" s'] by (simp only: fs')
      show ?thesis
      proof (cases "process_page E d t dpi mx q k (files s)")
        case (Inl e)
        have "process_page E d t dpi mx q k f' = Inl e"
          by (rule process_page_Inl_same_dirs [OF same_dirs_sym [OF dirs] Inl])
        with Inl show ?thesis
          unfolding step IH by (simp add: same)
      next
        case Inr2: (Inr y)
        obtain p2 g where y: "y = (p2, g)" by (cases y)
        from Inr2 y have run: "process_page E d t dpi mx q k (files s) = Inr (p2, g)"
          by simp
        then have p2: "p2 = image_path t k"
          by (simp add: process_page_Inr)
        from process_page_Inr_same_dirs [OF same_dirs_sym [OF dirs] run] obtain c2 where
          "g = (files s)(p2 \<mapsto> File c2)" "process_page E d t dpi mx q k f' = Inr (p2, f'(p2 \<mapsto> File c2))"
          by auto
        with run show ?thesis
          unfolding step IH by (simp add: p2)
      qed
    qed
  qed
qed

subsection \<open>The stages before the loop\<close>

lemma try_body_stages:
  "try_body E buf t dpi mx q (initial fs) =
     (case opens E buf t fs of
        Inl e \<Rightarrow> (Inl e, snd (try_body E buf t dpi mx q (initial fs)))
      | Inr (fs2, d, n) \<Rightarrow>
          (Inr (fst (page_loop E d t dpi mx q [0..<n] [] (opened_state fs2 t d n)), n),
           snd (page_loop E d t dpi mx q [0..<n] [] (opened_state fs2 t d n))))"
proof (cases "makedirs E fs t")
  case (Inl e)
  then show ?thesis
    by (simp add: opens_def try_body_def initial_def)
next
  case mk: (Inr fs1)
  show ?thesis
  proof (cases "write_file E fs1 (pdf_path t) (Raw buf)")
    case (Inl e)
    with mk show ?thesis
      by (simp add: opens_def try_body_def initial_def)
  next
    case wr: (Inr fs2)
    then have read: "fs2 (pdf_path t) = Some (File (Raw buf))"
      by (simp add: write_file_Inr)
    show ?thesis
    proof (cases "fitz_open E buf")
      case (Inl e)
      with mk wr read show ?thesis
        by (simp add: opens_def try_body_def initial_def open_pdf_def)
    next
      case op: (Inr d)
      show ?thesis
      proof (cases "page_count E d")
        case (Inl e)
        with mk wr read op show ?thesis
          by (simp add: opens_def try_body_def initial_def open_pdf_def)
      next
        case (Inr n)
        with mk wr read op show ?thesis
          by (simp add: opens_def try_body_def initial_def open_pdf_def opened_state_def
                split: prod.splits)
      qed
    qed
  qed
qed


lemma try_body_opens_Inr:
  "opens E buf t fs = Inr (fs2, d, n) \<Longrightarrow>
     try_body E buf t dpi mx q (initial fs) =
       (Inr (fst (page_loop E d t dpi mx q [0..<n] [] (opened_state fs2 t d n)), n),
        snd (page_loop E d t dpi mx q [0..<n] [] (opened_state fs2 t d n)))"
  by (subst try_body_stages) simp

lemma finally_close_files: "files (finally_close E s) = files s"
  by (simp add: finally_close_def split: option.splits)

lemma finally_close_log: "set (log s) \<subseteq> set (log (finally_close E s))"
  by (auto simp: finally_close_def split: option.splits)

lemma convert_opens_Inr:
  assumes "opens E buf t fs = Inr (fs2, d, n)"
  shows "convert_pdf_to_images E buf t dpi mx q fs =
       (Inr (map (image_path t) (filter (page_succeeds E d t dpi mx q fs2) [0..<n]), n),
        finally_close E (snd (page_loop E d t dpi mx q [0..<n] [] (opened_state fs2 t d n))))"
  by (simp add: convert_pdf_to_images_def try_body_opens_Inr [OF assms] except_log_def
        page_loop_paths opened_state_def)




lemma page_succeeds_iff:
  "page_succeeds E d t dpi mx q fs k \<longleftrightarrow>
     fs (image_path t k) \<noteq> Some Dir \<and> refuses E (image_path t k) = None \<and>
     (\<exists>img. page_image E d dpi mx k = Inr img \<and> encode_error E img q = None)"
proof (cases "process_page E d t dpi mx q k fs")
  case (Inl e)
  have "\<not> (\<exists>p fs'. process_page E d t dpi mx q k fs = Inr (p, fs'))"
    by (simp add: Inl)
  then show ?thesis
    unfolding process_page_Inr by (simp add: page_succeeds_def Inl)
next
  case (Inr x)
  obtain p fs' where "x = (p, fs')" by (cases x)
  with Inr have run: "process_page E d t dpi mx q k fs = Inr (p, fs')" by simp
  then have "page_succeeds E d t dpi mx q fs k"
    by (simp add: page_succeeds_def)
  moreover from run have "fs (image_path t k) \<noteq> Some Dir \<and> refuses E (image_path t k) = None \<and>
     (\<exists>img. page_image E d dpi mx k = Inr img \<and> encode_error E img q = None)"
    unfolding process_page_Inr by blast
  ultimately show ?thesis by simp
qed

lemma loop_written:
  assumes "k < n" "page_succeeds E d t dpi mx q fs2 k" "page_image E d dpi mx k = Inr img"
  shows "files (snd (page_loop E d t dpi mx q [0..<n] [] (opened_state fs2 t d n))) (image_path t k)
           = Some (File (Jpeg img q))"
proof -
  from assms(2,3) have "process_page E d t dpi mx q k fs2 =
      Inr (image_path t k, fs2(image_path t k \<mapsto> File (Jpeg img q)))"
    by (simp add: process_page_Inr page_succeeds_iff)
  moreover have "distinct [0..<n]" "k \<in> set [0..<n]"
    using assms(1) by simp_all
  ultimately show ?thesis
    by (simp add: page_loop_files_page opened_state_def)
qed


lemma loop_error_logged:
  assumes "k < n" "process_page E d t dpi mx q k fs2 = Inl e"
  shows "(ERROR, ErrorPage (k + 1) e)
           \<in> set (log (snd (page_loop E d t dpi mx q [0..<n] [] (opened_state fs2 t d n))))"
proof -
  from assms(2) have "(ERROR, ErrorPage (k + 1) e) \<in> set (page_records E d t dpi mx q fs2 k)"
    by (simp add: page_records_def)
  with assms(1) show ?thesis
    by (auto simp: page_loop_log opened_state_def)
qed

lemma makedirs_Inr:
  "makedirs E fs p = Inr fs1 \<longleftrightarrow>
     p \<noteq> [] \<and> ((fs p = Some Dir \<and> fs1 = fs) \<or>
               (fs p = None \<and> refuses E p = None \<and> fs1 = fs(p \<mapsto> Dir)))"
  by (auto simp: makedirs_def split: option.splits node.splits)


lemma persisted_store:
  assumes "makedirs E fs t = Inr fs1"
    and "write_file E fs1 (pdf_path t) (Raw buf) = Inr fs2"
  shows "fs2 t = Some Dir" "fs2 (pdf_path t) = Some (File (Raw buf))"
    "p \<noteq> t \<Longrightarrow> p \<noteq> pdf_path t \<Longrightarrow> fs2 p = fs p"
  using assms pdf_path_neq_folder [of t]
  by (auto simp: makedirs_Inr write_file_Inr)


lemma close_error_not_propagated:
  "fst (convert_pdf_to_images E buf t dpi mx q fs) = fst (try_body E buf t dpi mx q (initial fs))"
  by (cases "try_body E buf t dpi mx q (initial fs)") (simp add: convert_pdf_to_images_def)

lemma handle_after_convert:
  assumes "opens E buf t fs = Inr (fs2, d, n)"
  shows "handle (snd (convert_pdf_to_images E buf t dpi mx q fs)) =
           (if doc_truth E d then (case doc_close E d of None \<Rightarrow> Closed | Some e \<Rightarrow> CloseFailed)
            else Open)"
  by (simp add: convert_opens_Inr [OF assms] finally_close_def page_loop_handle opened_state_def
        split: option.splits)

lemma resize_cases:
  assumes "resize E rendered mx = Inr img" "thumbnail_contract E"
  shows "(if mx < max (width rendered) (height rendered)
          then thumbnail E rendered (mx, mx) LANCZOS = Inr img \<and>
               max (width img) (height img) = mx \<and> aspect_kept rendered img
          else img = rendered) \<and>
         max (width img) (height img) \<le> mx"
proof (cases "mx < max (width rendered) (height rendered)")
  case True
  with assms(1) have call: "thumbnail E rendered (mx, mx) LANCZOS = Inr img"
    by (simp add: resize_def)
  with assms(2) True have "max (width img) (height img) = mx \<and> aspect_kept rendered img"
    unfolding thumbnail_contract_def by blast
  with True call show ?thesis by simp
next
  case False
  with assms(1) show ?thesis
    by (auto simp: resize_def)
qed

subsection \<open>The zoom factor\<close>



subsection \<open>Running the routine again\<close>

lemma same_dirs_trans: "same_dirs f g \<Longrightarrow> same_dirs g h \<Longrightarrow> same_dirs f h"
  by (simp add: same_dirs_def)

lemma page_loop_rerun:
  assumes "distinct ks"
    and "same_dirs G (files s)"
    and "\<forall>k\<in>set ks. G (image_path t k) =
           files (snd (page_loop E d t dpi mx q ks acc s)) (image_path t k)"
  shows "page_loop E d t dpi mx q ks acc (s\<lparr>files := G\<rparr>) =
           (fst (page_loop E d t dpi mx q ks acc s),
            (snd (page_loop E d t dpi mx q ks acc s))\<lparr>files := G\<rparr>)"
  using assms
proof (induction ks arbitrary: acc s)
  case Nil
  show ?case by simp
next
  case (Cons k ks)
  from Cons.prems(1) have dist: "distinct ks" and fresh: "k \<notin> set ks"
    by simp_all
  note dirs = Cons.prems(2)
  show ?case
  proof (cases "process_page E d t dpi mx q k (files s)")
    case (Inl e)
    define s1 where "s1 = s\<lparr>log := log s @ [(ERROR, ErrorPage (k + 1) e), (ERROR, Traceback e)]\<rparr>"
    have runG: "process_page E d t dpi mx q k G = Inl e"
      by (rule process_page_Inl_same_dirs [OF same_dirs_sym [OF dirs] Inl])
    have step: "page_loop E d t dpi mx q (k # ks) acc s = page_loop E d t dpi mx q ks acc s1"
      using Inl by (simp add: s1_def)
    have stepG: "page_loop E d t dpi mx q (k # ks) acc (s\<lparr>files := G\<rparr>) =
                 page_loop E d t dpi mx q ks acc (s1\<lparr>files := G\<rparr>)"
      using runG by (cases s) (simp add: s1_def)
    have "same_dirs G (files s1)"
      using dirs by (simp add: s1_def)
    moreover have "\<forall>j\<in>set ks. G (image_path t j) =
        files (snd (page_loop E d t dpi mx q ks acc s1)) (image_path t j)"
      using Cons.prems(3) unfolding step by simp
    ultimately have "page_loop E d t dpi mx q ks acc (s1\<lparr>files := G\<rparr>) =
        (fst (page_loop E d t dpi mx q ks acc s1),
         (snd (page_loop E d t dpi mx q ks acc s1))\<lparr>files := G\<rparr>)"
      by (rule Cons.IH [OF dist])
    then show ?thesis
      unfolding step stepG .
  next
    case (Inr x)
    obtain p f' where x: "x = (p, f')" by (cases x)
    with Inr have run: "process_page E d t dpi mx q k (files s) = Inr (p, f')"
      by simp
    then have p: "p = image_path t k"
      by (simp add: process_page_Inr)
    from process_page_Inr_same_dirs [OF same_dirs_sym [OF dirs] run] obtain c where
      f': "f' = (files s)(p \<mapsto> File c)" and
      runG: "process_page E d t dpi mx q k G = Inr (p, G(p \<mapsto> File c))"
      by auto
    define s1 where "s1 = s\<lparr>files := f', log := log s @ [(DEBUG, GeneratedPage (k + 1))]\<rparr>"
    have fs1: "files s1 = f'"
      by (simp add: s1_def)
    have step: "page_loop E d t dpi mx q (k # ks) acc s = page_loop E d t dpi mx q ks (acc @ [p]) s1"
      using run by (simp add: s1_def)
    have "p \<notin> image_path t ` set ks"
      using fresh by (auto simp: p dest: image_path_inj)
    then have "files (snd (page_loop E d t dpi mx q ks (acc @ [p]) s1)) p = f' p"
      by (simp add: page_loop_files_other fs1)
    moreover have "G p = files (snd (page_loop E d t dpi mx q (k # ks) acc s)) p"
      using Cons.prems(3) by (simp add: p del: page_loop.simps)
    then have "G p = files (snd (page_loop E d t dpi mx q ks (acc @ [p]) s1)) p"
      by (simp only: step)
    ultimately have "G p = Some (File c)"
      by (simp add: f')
    then have idem: "G(p \<mapsto> File c) = G"
      by (rule fun_upd_idem)
    have stepG: "page_loop E d t dpi mx q (k # ks) acc (s\<lparr>files := G\<rparr>) =
                 page_loop E d t dpi mx q ks (acc @ [p]) (s1\<lparr>files := G\<rparr>)"
      using runG by (cases s) (simp add: s1_def idem)
    have "same_dirs f' (files s)"
      using run by (rule process_page_keeps_dirs)
    then have "same_dirs G (files s1)"
      using dirs by (simp add: fs1 same_dirs_trans [OF dirs same_dirs_sym])
    moreover have "\<forall>j\<in>set ks. G (image_path t j) =
        files (snd (page_loop E d t dpi mx q ks (acc @ [p]) s1)) (image_path t j)"
      using Cons.prems(3) unfolding step by simp
    ultimately have "page_loop E d t dpi mx q ks (acc @ [p]) (s1\<lparr>files := G\<rparr>) =
        (fst (page_loop E d t dpi mx q ks (acc @ [p]) s1),
         (snd (page_loop E d t dpi mx q ks (acc @ [p]) s1))\<lparr>files := G\<rparr>)"
      by (rule Cons.IH [OF dist])
    then show ?thesis
      unfolding step stepG .
  qed
qed


lemma opens_Inr:
  "opens E buf t fs = Inr (fs2, d, n) \<longleftrightarrow>
     (\<exists>fs1. makedirs E fs t = Inr fs1 \<and> write_file E fs1 (pdf_path t) (Raw buf) = Inr fs2) \<and>
     fitz_open E buf = Inr d \<and> page_count E d = Inr n"
  by (auto simp: opens_def split: sum.splits)

lemma persist_again:
  assumes "makedirs E fs t = Inr fs1"
    and "write_file E fs1 (pdf_path t) (Raw buf) = Inr fs2"
    and "same_dirs F fs2"
    and "F (pdf_path t) = Some (File (Raw buf))"
  shows "makedirs E F t = Inr F" and "write_file E F (pdf_path t) (Raw buf) = Inr F"
proof -
  from assms(1) have "t \<noteq> []"
    by (simp add: makedirs_Inr)
  moreover have "fs2 t = Some Dir"
    by (rule persisted_store(1) [OF assms(1,2)])
  then have "F t = Some Dir"
    by (simp add: same_dirsD [OF assms(3)])
  ultimately show "makedirs E F t = Inr F"
    by (simp add: makedirs_Inr)
  from assms(2) have "refuses E (pdf_path t) = None"
    by (simp add: write_file_Inr)
  moreover have "F(pdf_path t \<mapsto> File (Raw buf)) = F"
    using assms(4) by (rule fun_upd_idem)
  ultimately show "write_file E F (pdf_path t) (Raw buf) = Inr F"
    by (simp add: write_file_Inr assms(4))
qed

lemma convert_persist_cong:
  assumes "makedirs E fs t = Inr fs1"
    and "write_file E fs1 (pdf_path t) (Raw buf) = Inr fs2"
    and "makedirs E fs' t = Inr fs1'"
    and "write_file E fs1' (pdf_path t) (Raw buf) = Inr fs2"
  shows "convert_pdf_to_images E buf t dpi mx q fs' = convert_pdf_to_images E buf t dpi mx q fs"
  by (simp add: convert_pdf_to_images_def try_body_def initial_def assms)

lemma files_after_failed_open:
  assumes "makedirs E fs t = Inr fs1"
    and "write_file E fs1 (pdf_path t) (Raw buf) = Inr fs2"
    and "opens E buf t fs = Inl e"
  shows "files (snd (convert_pdf_to_images E buf t dpi mx q fs)) = fs2"
proof -
  from assms(2) have read: "fs2 (pdf_path t) = Some (File (Raw buf))"
    by (simp add: write_file_Inr)
  show ?thesis
  proof (cases "fitz_open E buf")
    case (Inl e')
    with assms(1,2) read show ?thesis
      by (simp add: convert_pdf_to_images_def try_body_def initial_def open_pdf_def
            except_log_def finally_close_files)
  next
    case op: (Inr d)
    show ?thesis
    proof (cases "page_count E d")
      case (Inl e')
      with assms(1,2) read op show ?thesis
        by (simp add: convert_pdf_to_images_def try_body_def initial_def open_pdf_def
              except_log_def finally_close_files)
    next
      case (Inr n)
      with assms op show ?thesis
        by (simp add: opens_def)
    qed
  qed
qed

lemma convert_rerun:
  "convert_pdf_to_images E buf t dpi mx q (files (snd (convert_pdf_to_images E buf t dpi mx q fs))) =
   convert_pdf_to_images E buf t dpi mx q fs"
proof (cases "makedirs E fs t")
  case (Inl e)
  then have "files (snd (convert_pdf_to_images E buf t dpi mx q fs)) = fs"
    by (simp add: convert_pdf_to_images_def try_body_def initial_def except_log_def
          finally_close_files)
  then show ?thesis by simp
next
  case mk: (Inr fs1)
  then have dir: "t \<noteq> []" "fs1 t = Some Dir"
    by (auto simp: makedirs_Inr)
  show ?thesis
  proof (cases "write_file E fs1 (pdf_path t) (Raw buf)")
    case (Inl e)
    with mk have "files (snd (convert_pdf_to_images E buf t dpi mx q fs)) = fs1"
      by (simp add: convert_pdf_to_images_def try_body_def initial_def except_log_def
            finally_close_files)
    moreover from dir have "makedirs E fs1 t = Inr fs1"
      by (simp add: makedirs_Inr)
    ultimately show ?thesis
      using mk Inl by (simp add: convert_pdf_to_images_def try_body_def initial_def)
  next
    case wr: (Inr fs2)
    have stored: "fs2 (pdf_path t) = Some (File (Raw buf))"
      by (rule persisted_store(2) [OF mk wr])
    show ?thesis
    proof (cases "opens E buf t fs")
      case (Inl e)
      have "files (snd (convert_pdf_to_images E buf t dpi mx q fs)) = fs2"
        by (rule files_after_failed_open [OF mk wr Inl])
      moreover have "convert_pdf_to_images E buf t dpi mx q fs2 =
          convert_pdf_to_images E buf t dpi mx q fs"
        by (rule convert_persist_cong [OF mk wr persist_again [OF mk wr same_dirs_refl stored]])
      ultimately show ?thesis by simp
    next
      case (Inr x)
      obtain fs2' d n where "x = (fs2', d, n)" by (cases x)
      with Inr mk wr have ok: "opens E buf t fs = Inr (fs2, d, n)"
        by (auto simp: opens_Inr)
      let ?s = "opened_state fs2 t d n"
      let ?L = "page_loop E d t dpi mx q [0..<n] [] ?s"
      define F where "F = files (snd ?L)"
      have final: "files (snd (convert_pdf_to_images E buf t dpi mx q fs)) = F"
        by (simp add: convert_opens_Inr [OF ok] finally_close_files F_def)
      have dirs: "same_dirs F fs2"
        using page_loop_same_dirs [of E d t dpi mx q "[0..<n]" "[]" ?s]
        by (simp add: F_def opened_state_def)
      have "pdf_path t \<notin> image_path t ` set [0..<n]"
        by (auto simp: image_path_neq_pdf_path [symmetric])
      then have "F (pdf_path t) = fs2 (pdf_path t)"
        unfolding F_def by (simp add: page_loop_files_other opened_state_def)
      with stored have kept: "F (pdf_path t) = Some (File (Raw buf))"
        by simp
      from ok persist_again [OF mk wr dirs kept] have ok': "opens E buf t F = Inr (F, d, n)"
        by (auto simp: opens_Inr)
      have "page_loop E d t dpi mx q [0..<n] [] (?s\<lparr>files := F\<rparr>) = (fst ?L, (snd ?L)\<lparr>files := F\<rparr>)"
      proof (rule page_loop_rerun)
        show "distinct [0..<n]" by simp
        show "same_dirs F (files ?s)"
          using dirs by (simp add: opened_state_def)
        show "\<forall>k\<in>set [0..<n]. F (image_path t k) = files (snd ?L) (image_path t k)"
          by (simp add: F_def)
      qed
      moreover have "?s\<lparr>files := F\<rparr> = opened_state F t d n"
        by (simp add: opened_state_def)
      moreover have "(snd ?L)\<lparr>files := F\<rparr> = snd ?L"
        by (simp add: F_def)
      ultimately have loop: "page_loop E d t dpi mx q [0..<n] [] (opened_state F t d n) = ?L"
        by simp
      have "page_succeeds E d t dpi mx q F = page_succeeds E d t dpi mx q fs2"
        by (intro ext) (rule page_succeeds_same_dirs [OF dirs])
      then have "convert_pdf_to_images E buf t dpi mx q F = convert_pdf_to_images E buf t dpi mx q fs"
        by (simp add: convert_opens_Inr [OF ok] convert_opens_Inr [OF ok'] loop)
      with final show ?thesis by simp
    qed
  qed
qed

lemma upload_overwritten:
  assumes "(INFO, PdfSaved (pdf_path t)) \<in> set (log (snd (convert_pdf_to_images E buf t dpi mx q fs)))"
  shows "files (snd (convert_pdf_to_images E buf t dpi mx q fs)) (pdf_path t) = Some (File (Raw buf))"
proof (cases "makedirs E fs t")
  case (Inl e)
  with assms show ?thesis
    by (simp add: convert_pdf_to_images_def try_body_def initial_def except_log_def
          finally_close_def)
next
  case mk: (Inr fs1)
  show ?thesis
  proof (cases "write_file E fs1 (pdf_path t) (Raw buf)")
    case (Inl e)
    with mk assms show ?thesis
      by (simp add: convert_pdf_to_images_def try_body_def initial_def except_log_def
            finally_close_def)
  next
    case wr: (Inr fs2)
    have stored: "fs2 (pdf_path t) = Some (File (Raw buf))"
      by (rule persisted_store(2) [OF mk wr])
    show ?thesis
    proof (cases "opens E buf t fs")
      case (Inl e)
      with stored show ?thesis
        by (simp add: files_after_failed_open [OF mk wr Inl])
    next
      case (Inr x)
      obtain fs2' d n where "x = (fs2', d, n)" by (cases x)
      with Inr mk wr have ok: "opens E buf t fs = Inr (fs2, d, n)"
        by (auto simp: opens_Inr)
      have "pdf_path t \<notin> image_path t ` set [0..<n]"
        by (auto simp: image_path_neq_pdf_path [symmetric])
      with stored show ?thesis
        by (simp add: convert_opens_Inr [OF ok] finally_close_files page_loop_files_other
              opened_state_def)
    qed
  qed
qed

subsection \<open>The instance evaluated\<close>

lemmas demo_defs =
  convert_pdf_to_images_def try_body_def initial_def makedirs_def write_file_def pdf_path_def
  path_join_def open_pdf_def demo_env_def demo_doc_def demo_store_def except_log_def
  finally_close_def process_page_def page_image_def rendered_image_def render_def resize_def
  save_def image_path_def str_nat.simps digit_def opens_def page_succeeds_def upt_rec

lemma demo_opens:
  "opens demo_env ''%PDF-3'' ''/tmp/out'' Map.empty = Inr (demo_store ''%PDF-3'', demo_doc, 3)"
  by (simp add: demo_defs)


lemma demo_page_succeeds:
  "page_succeeds demo_env demo_doc ''/tmp/out'' 200 1024 85 (demo_store ''%PDF-3'') 0"
  "\<not> page_succeeds demo_env demo_doc ''/tmp/out'' 200 1024 85 (demo_store ''%PDF-3'') 1"
  "page_succeeds demo_env demo_doc ''/tmp/out'' 200 1024 85 (demo_store ''%PDF-3'') 2"
  by (simp_all add: demo_defs)

lemma demo_rendered:
  "rendered_image demo_env demo_doc 200 0 = Inr \<lparr>width = 1700, height = 2200, pixels = []\<rparr>"
  "rendered_image demo_env demo_doc 72 0 = Inr \<lparr>width = 612, height = 792, pixels = []\<rparr>"
  by (simp_all add: demo_defs)

lemma demo_thumbnail_contract: "thumbnail_contract demo_env"
proof -
  have scale: "max (max 1 (b * w div h)) b = b \<and> \<bar>max 1 (b * w div h) * h - b * w\<bar> \<le> h"
    if "0 < b" "0 < w" "w \<le> h" for b w h :: int
  proof -
    define d where "d = b * w div h"
    define m where "m = b * w mod h"
    from that have h: "0 < h" by simp
    have eq: "b * w = d * h + m"
      by (simp add: d_def m_def)
    from h have m: "0 \<le> m" "m < h"
      by (simp_all add: m_def)
    from that have "0 \<le> b * w" by simp
    with h have d0: "0 \<le> d"
      by (simp add: d_def pos_imp_zdiv_nonneg_iff)
    from that have "b * w \<le> b * h"
      by (simp add: mult_left_mono)
    then have "b * w div h \<le> b * h div h"
      using h by (rule zdiv_mono1)
    with h have db: "d \<le> b"
      by (simp add: d_def)
    show ?thesis
    proof (cases "d = 0")
      case True
      with eq m that db show ?thesis
        unfolding d_def [symmetric] by simp
    next
      case False
      with d0 have "1 \<le> d" by simp
      with eq m that db show ?thesis
        unfolding d_def [symmetric] by simp
    qed
  qed
  show ?thesis
    unfolding thumbnail_contract_def aspect_kept_def
  proof (intro allI impI)
    fix img :: image and b :: int and r :: resample and img' :: image
    assume big: "b < max (width img) (height img)"
      and call: "thumbnail demo_env img (b, b) r = Inr img'"
    from call have pos: "0 < b" "0 < width img" "0 < height img"
      by (auto simp: demo_env_def split: if_splits)
    show "max (width img') (height img') = b \<and>
          \<bar>width img' * height img - height img' * width img\<bar> \<le> max (width img) (height img)"
    proof (cases "width img \<le> height img")
      case True
      with call pos have img': "width img' = max 1 (b * width img div height img)" "height img' = b"
        by (auto simp: demo_env_def split: if_splits)
      from scale [OF pos(1,2) True] True show ?thesis
        by (simp add: img')
    next
      case False
      then have le: "height img \<le> width img" by simp
      from False call pos have img': "width img' = b" "height img' = max 1 (b * height img div width img)"
        by (auto simp: demo_env_def split: if_splits)
      from scale [OF pos(1,3) le] False show ?thesis
        by (simp add: img' max.commute abs_minus_commute)
    qed
  qed
qed

lemma demo_page_fails:
  "process_page demo_env demo_doc ''/tmp/out'' 200 1024 85 1 (demo_store ''%PDF-3'') =
     Inl (LibraryError ''bad page'')"
  by (simp add: demo_defs)

lemma demo_image_paths:
  "image_path ''/tmp/out'' 0 = ''/tmp/out/page_1.jpg''"
  "image_path ''/tmp/out'' 1 = ''/tmp/out/page_2.jpg''"
  "image_path ''/tmp/out'' 2 = ''/tmp/out/page_3.jpg''"
  by (simp_all add: demo_defs)

section \<open>The properties\<close>

subsection \<open>C1: page count and number of artifacts\<close>

text \<open>
  Claim C1. When the upload is persisted and the document opens with page count \<open>n\<close>,
  the routine returns \<open>n\<close> as \<^verbatim>\<open>total_pages\<close>, and the list of paths it returns has
  at most \<open>n\<close> elements: as many as there are pages that were processed without an
  exception, which may be fewer than \<open>n\<close>.
\<close>

theorem total_pages_reported:
  assumes "opens E buf t fs = Inr (fs2, d, n)"
  shows "\<exists>image_paths. fst (convert_pdf_to_images E buf t dpi mx q fs) = Inr (image_paths, n) \<and>
           length image_paths \<le> n \<and>
           length image_paths = length (filter (page_succeeds E d t dpi mx q fs2) [0..<n])"
proof -
  have "length (filter (page_succeeds E d t dpi mx q fs2) [0..<n]) \<le> length [0..<n]"
    by (rule length_filter_le)
  then show ?thesis
    by (simp add: convert_opens_Inr [OF assms])
qed

text \<open>
  Witness for C1: the three-page document whose second page is corrupt. The page
  count returned is 3.
\<close>

theorem total_pages_reported_witness:
  "opens demo_env ''%PDF-3'' ''/tmp/out'' Map.empty = Inr (demo_store ''%PDF-3'', demo_doc, 3) \<and>
   (\<exists>image_paths.
      fst (convert_pdf_to_images demo_env ''%PDF-3'' ''/tmp/out'' 200 1024 85 Map.empty) =
        Inr (image_paths, 3) \<and>
      length image_paths \<le> 3 \<and>
      length image_paths =
        length (filter (page_succeeds demo_env demo_doc ''/tmp/out'' 200 1024 85
                          (demo_store ''%PDF-3'')) [0..<3]))"
  using total_pages_reported [OF demo_opens, of 200 1024 85] demo_opens by simp

subsection \<open>C2: a failing page does not end the batch\<close>

text \<open>
  Claim C2. Once the document is open, the routine returns normally with the page count
  unchanged, whatever the pages do. Every page whose processing succeeds has its path in
  the result and its JPEG in the store; every page whose processing raises has the error
  logged under its ordinal and no path in the result.
\<close>

theorem page_failure_isolated:
  assumes "opens E buf t fs = Inr (fs2, d, n)"
  shows "\<exists>image_paths s.
           convert_pdf_to_images E buf t dpi mx q fs = (Inr (image_paths, n), s) \<and>
           (\<forall>k<n.
              (page_succeeds E d t dpi mx q fs2 k \<longrightarrow>
                 image_path t k \<in> set image_paths \<and>
                 (\<exists>img. files s (image_path t k) = Some (File (Jpeg img q)))) \<and>
              (\<forall>e. process_page E d t dpi mx q k fs2 = Inl e \<longrightarrow>
                 (ERROR, ErrorPage (k + 1) e) \<in> set (log s) \<and>
                 image_path t k \<notin> set image_paths))"
proof -
  let ?P = "page_succeeds E d t dpi mx q fs2"
  let ?L = "page_loop E d t dpi mx q [0..<n] [] (opened_state fs2 t d n)"
  let ?ps = "map (image_path t) (filter ?P [0..<n])"
  let ?s = "finally_close E (snd ?L)"
  have conv: "convert_pdf_to_images E buf t dpi mx q fs = (Inr (?ps, n), ?s)"
    by (rule convert_opens_Inr [OF assms])
  have good: "image_path t k \<in> set ?ps \<and> (\<exists>img. files ?s (image_path t k) = Some (File (Jpeg img q)))"
    if "k < n" "?P k" for k
  proof -
    from that(2) obtain img where "page_image E d dpi mx k = Inr img"
      by (auto simp: page_succeeds_iff)
    with that have "files ?s (image_path t k) = Some (File (Jpeg img q))"
      by (simp add: finally_close_files loop_written)
    with that show ?thesis by auto
  qed
  have bad: "(ERROR, ErrorPage (k + 1) e) \<in> set (log ?s) \<and> image_path t k \<notin> set ?ps"
    if "k < n" "process_page E d t dpi mx q k fs2 = Inl e" for k e
  proof -
    have "(ERROR, ErrorPage (k + 1) e) \<in> set (log (snd ?L))"
      by (rule loop_error_logged [OF that])
    then have "(ERROR, ErrorPage (k + 1) e) \<in> set (log ?s)"
      using finally_close_log [of "snd ?L" E] by (rule rev_subsetD)
    moreover from that(2) have "\<not> ?P k"
      by (simp add: page_succeeds_def)
    then have "image_path t k \<notin> set ?ps"
      by (auto dest: image_path_inj)
    ultimately show ?thesis by simp
  qed
  show ?thesis
    unfolding conv using good bad by simp blast
qed

text \<open>
  Witness for C2: pages 1 and 3 are returned, page 2 is logged and absent.
\<close>

theorem page_failure_isolated_witness:
  "opens demo_env ''%PDF-3'' ''/tmp/out'' Map.empty = Inr (demo_store ''%PDF-3'', demo_doc, 3) \<and>
   (\<exists>image_paths s.
      convert_pdf_to_images demo_env ''%PDF-3'' ''/tmp/out'' 200 1024 85 Map.empty =
        (Inr (image_paths, 3), s) \<and>
      ''/tmp/out/page_1.jpg'' \<in> set image_paths \<and>
      ''/tmp/out/page_3.jpg'' \<in> set image_paths \<and>
      ''/tmp/out/page_2.jpg'' \<notin> set image_paths \<and>
      (ERROR, ErrorPage 2 (LibraryError ''bad page'')) \<in> set (log s))"
proof -
  from page_failure_isolated [OF demo_opens, of 200 1024 85] obtain image_paths s where
    run: "convert_pdf_to_images demo_env ''%PDF-3'' ''/tmp/out'' 200 1024 85 Map.empty =
            (Inr (image_paths, 3), s)" and
    each: "\<forall>k<3.
      (page_succeeds demo_env demo_doc ''/tmp/out'' 200 1024 85 (demo_store ''%PDF-3'') k \<longrightarrow>
         image_path ''/tmp/out'' k \<in> set image_paths \<and>
         (\<exists>img. files s (image_path ''/tmp/out'' k) = Some (File (Jpeg img 85)))) \<and>
      (\<forall>e. process_page demo_env demo_doc ''/tmp/out'' 200 1024 85 k (demo_store ''%PDF-3'') = Inl e \<longrightarrow>
         (ERROR, ErrorPage (k + 1) e) \<in> set (log s) \<and>
         image_path ''/tmp/out'' k \<notin> set image_paths)"
    by blast
  from each [rule_format, of 0] demo_page_succeeds(1)
  have one: "''/tmp/out/page_1.jpg'' \<in> set image_paths"
    by (simp add: demo_image_paths)
  from each [rule_format, of 2] demo_page_succeeds(3)
  have three: "''/tmp/out/page_3.jpg'' \<in> set image_paths"
    by (simp add: demo_image_paths)
  from each [rule_format, of 1] demo_page_fails demo_image_paths(2)
  have two: "''/tmp/out/page_2.jpg'' \<notin> set image_paths \<and>
      (ERROR, ErrorPage 2 (LibraryError ''bad page'')) \<in> set (log s)"
    by (simp add: numeral_2_eq_2)
  from demo_opens run one three two show ?thesis
    by blast
qed

subsection \<open>C3: positions in the returned list\<close>




subsection \<open>C4: the failures that end the call\<close>




subsection \<open>C5: closing the handle\<close>

text \<open>
  Claim C5 says that the handle is closed on every exit path. The finally block tests
  the truth value of the document, not whether it is \<^verbatim>\<open>None\<close>: the document without
  pages opens, the routine returns an empty list and page count 0, and the handle is
  still open. (When the document is truthy the handle is closed or the failure of
  \<^verbatim>\<open>close\<close> is logged, see \<open>handle_after_convert\<close>; an exception of \<^verbatim>\<open>close\<close> never
  reaches the caller, see \<open>close_error_not_propagated\<close>.)
\<close>

theorem empty_document_left_open:
  "fst (convert_pdf_to_images demo_env ''%PDF-0'' ''/tmp/out'' 200 1024 85 Map.empty) = Inr ([], 0) \<and>
   handle (snd (convert_pdf_to_images demo_env ''%PDF-0'' ''/tmp/out'' 200 1024 85 Map.empty)) = Open"
  by (simp add: convert_pdf_to_images_def try_body_def initial_def makedirs_def write_file_def
        pdf_path_def path_join_def open_pdf_def demo_env_def except_log_def finally_close_def)

subsection \<open>C6: the dimensions of an artifact\<close>

text \<open>
  Claim C6. For a page that yields an artifact, the stored JPEG is the encoding of the
  rendered image itself when neither side exceeds \<^verbatim>\<open>max_image_size\<close>, and of the
  result of \<^verbatim>\<open>thumbnail\<close> on the square box of that side otherwise. With the assumed
  behaviour of \<^verbatim>\<open>thumbnail\<close>, the larger side is then exactly \<^verbatim>\<open>max_image_size\<close> and
  the aspect ratio is kept; in both cases the artifact lies within the bound.
\<close>

theorem artifact_within_bound:
  assumes "opens E buf t fs = Inr (fs2, d, n)"
    and "k < n"
    and "page_succeeds E d t dpi mx q fs2 k"
    and "thumbnail_contract E"
  shows "\<exists>rendered img.
           rendered_image E d dpi k = Inr rendered \<and>
           files (snd (convert_pdf_to_images E buf t dpi mx q fs)) (image_path t k) =
             Some (File (Jpeg img q)) \<and>
           (if mx < max (width rendered) (height rendered)
            then thumbnail E rendered (mx, mx) LANCZOS = Inr img \<and>
                 max (width img) (height img) = mx \<and> aspect_kept rendered img
            else img = rendered) \<and>
           max (width img) (height img) \<le> mx"
proof -
  from assms(3) obtain img where img: "page_image E d dpi mx k = Inr img"
    by (auto simp: page_succeeds_iff)
  then obtain rendered where rendered: "rendered_image E d dpi k = Inr rendered"
    and resized: "resize E rendered mx = Inr img"
    by (auto simp: page_image_def split: sum.splits)
  have stored: "files (snd (convert_pdf_to_images E buf t dpi mx q fs)) (image_path t k) =
      Some (File (Jpeg img q))"
    by (simp add: convert_opens_Inr [OF assms(1)] finally_close_files loop_written [OF assms(2,3) img])
  from rendered stored resize_cases [OF resized assms(4)] show ?thesis
    by blast
qed

text \<open>
  Witness for C6: the first page, 1700 by 2200 pixels at 200 dpi, is scaled down to
  a larger side of 1024.
\<close>

theorem artifact_within_bound_witness:
  "opens demo_env ''%PDF-3'' ''/tmp/out'' Map.empty = Inr (demo_store ''%PDF-3'', demo_doc, 3) \<and>
   (0::nat) < 3 \<and>
   page_succeeds demo_env demo_doc ''/tmp/out'' 200 1024 85 (demo_store ''%PDF-3'') 0 \<and>
   thumbnail_contract demo_env \<and>
   (\<exists>img.
      files (snd (convert_pdf_to_images demo_env ''%PDF-3'' ''/tmp/out'' 200 1024 85 Map.empty))
        (image_path ''/tmp/out'' 0) = Some (File (Jpeg img 85)) \<and>
      thumbnail demo_env \<lparr>width = 1700, height = 2200, pixels = []\<rparr> (1024, 1024) LANCZOS = Inr img \<and>
      max (width img) (height img) = 1024)"
proof -
  have less: "(0::nat) < 3" by simp
  from artifact_within_bound [OF demo_opens less demo_page_succeeds(1) demo_thumbnail_contract]
  obtain rendered img where
    "rendered_image demo_env demo_doc 200 0 = Inr rendered"
    "files (snd (convert_pdf_to_images demo_env ''%PDF-3'' ''/tmp/out'' 200 1024 85 Map.empty))
       (image_path ''/tmp/out'' 0) = Some (File (Jpeg img 85))"
    "if 1024 < max (width rendered) (height rendered)
     then thumbnail demo_env rendered (1024, 1024) LANCZOS = Inr img \<and>
          max (width img) (height img) = 1024 \<and> aspect_kept rendered img
     else img = rendered"
    by blast
  with demo_rendered(1) have
    "files (snd (convert_pdf_to_images demo_env ''%PDF-3'' ''/tmp/out'' 200 1024 85 Map.empty))
       (image_path ''/tmp/out'' 0) = Some (File (Jpeg img 85)) \<and>
     thumbnail demo_env \<lparr>width = 1700, height = 2200, pixels = []\<rparr> (1024, 1024) LANCZOS = Inr img \<and>
     max (width img) (height img) = 1024"
    by simp
  with demo_opens less demo_page_succeeds(1) demo_thumbnail_contract show ?thesis
    by blast
qed

subsection \<open>C7: the paths of the artifacts\<close>



subsection \<open>C8: the zoom factor\<close>



subsection \<open>C9: running the routine twice\<close>

text \<open>
  Claim C9. Running the routine again with the same arguments on the store the first
  run left gives the same result and the same state: the same paths, the same page
  count, the same files with the same images. Whatever an earlier run persisted, once a
  run has saved the upload, \<^verbatim>\<open>uploaded.pdf\<close> holds exactly the bytes of that run.
\<close>

theorem convert_idempotent:
  "convert_pdf_to_images E buf t dpi mx q (files (snd (convert_pdf_to_images E buf t dpi mx q fs))) =
     convert_pdf_to_images E buf t dpi mx q fs \<and>
   (\<forall>buf0 fs0.
      (INFO, PdfSaved (pdf_path t))
        \<in> set (log (snd (convert_pdf_to_images E buf t dpi mx q
                            (files (snd (convert_pdf_to_images E buf0 t dpi mx q fs0)))))) \<longrightarrow>
      files (snd (convert_pdf_to_images E buf t dpi mx q
                    (files (snd (convert_pdf_to_images E buf0 t dpi mx q fs0))))) (pdf_path t) =
        Some (File (Raw buf)))"
  using convert_rerun upload_overwritten by blast

text \<open>
  Witness for C9: a run on the three-page document after a run on the empty one.
\<close>

theorem convert_idempotent_witness:
  "(INFO, PdfSaved (pdf_path ''/tmp/out''))
     \<in> set (log (snd (convert_pdf_to_images demo_env ''%PDF-3'' ''/tmp/out'' 200 1024 85
                         (files (snd (convert_pdf_to_images demo_env ''%PDF-0'' ''/tmp/out'' 200 1024 85
                                        Map.empty)))))) \<and>
   files (snd (convert_pdf_to_images demo_env ''%PDF-3'' ''/tmp/out'' 200 1024 85
                 (files (snd (convert_pdf_to_images demo_env ''%PDF-0'' ''/tmp/out'' 200 1024 85
                                Map.empty))))) (pdf_path ''/tmp/out'') =
     Some (File (Raw ''%PDF-3'')) \<and>
   convert_pdf_to_images demo_env ''%PDF-3'' ''/tmp/out'' 200 1024 85
     (files (snd (convert_pdf_to_images demo_env ''%PDF-3'' ''/tmp/out'' 200 1024 85 Map.empty))) =
   convert_pdf_to_images demo_env ''%PDF-3'' ''/tmp/out'' 200 1024 85 Map.empty"
proof -
  have logged: "(INFO, PdfSaved (pdf_path ''/tmp/out''))
     \<in> set (log (snd (convert_pdf_to_images demo_env ''%PDF-3'' ''/tmp/out'' 200 1024 85
                         (files (snd (convert_pdf_to_images demo_env ''%PDF-0'' ''/tmp/out'' 200 1024 85
                                        Map.empty))))))"
    by (simp add: demo_defs)
  from convert_idempotent [of demo_env "''%PDF-3''" "''/tmp/out''" 200 1024 85 Map.empty] logged
  show ?thesis
    by blast
qed

subsection \<open>C10: what a failed open leaves behind\<close>



end
